theory Spec2Isabelle
  imports Complex_Main "HOL-Library.Log_Nat"
begin

section \<open>Python numbers: unbounded integers and IEEE 754 binary64 floats\<close>

text \<open>
  The pricing function of \<^verbatim>\<open>gym_system.py\<close> mixes Python \<^verbatim>\<open>int\<close> and \<^verbatim>\<open>float\<close>.
  A float is modelled by its value: a rational number that is representable in binary64,
  one of the two infinities, or NaN. Every operation computes the exact rational result
  and rounds it to the nearest representable value, ties to even, as CPython does on
  IEEE 754 hardware. The sign of a zero is not modelled: the function below never
  produces a negative zero (its zeros come from the integer 0 and from the literal
  \<^verbatim>\<open>0.0\<close>), and no result depends on it.
\<close>

datatype pyfloat = Finite rat | PosInf | NegInf | NaN

text \<open>\<open>pow2 e\<close> is \<open>2\<close> to the power \<open>e\<close>, for a positive or negative exponent.\<close>

definition pow2 :: "int \<Rightarrow> rat" where
  "pow2 e = (if 0 \<le> e then 2 ^ nat e else 1 / 2 ^ nat (- e))"

text \<open>
  \<open>ilog2 q\<close>, for \<open>q > 0\<close>, is the exponent \<open>e\<close> with \<open>2^e \<le> q < 2^(e+1)\<close>: the
  difference of the bit lengths of numerator and denominator, or one less.
\<close>

definition ilog2 :: "rat \<Rightarrow> int" where
  "ilog2 q = (case quotient_of q of (n, d) \<Rightarrow>
     (let k = bitlen n - bitlen d in if pow2 k \<le> q then k else k - 1))"

text \<open>Rounding to the nearest integer, a tie going to the even neighbour.\<close>

definition round_half_even :: "rat \<Rightarrow> int" where
  "round_half_even x =
     (let f = \<lfloor>x\<rfloor>; r = x - of_int f
      in if r < 1 / 2 then f else if 1 / 2 < r then f + 1 else if even f then f else f + 1)"

text \<open>
  The magnitude of the binary64 value nearest to \<open>q \<ge> 0\<close>: 53 significant bits, the
  exponent not below that of the subnormal numbers. The result may be \<open>2^1024\<close>, which
  is the overflow case.
\<close>

definition round_mag :: "rat \<Rightarrow> rat" where
  "round_mag q =
     (let e = max (ilog2 q) (- 1022); u = pow2 (e - 52)
      in of_int (round_half_even (q / u)) * u)"

text \<open>
  The first magnitude that is out of range: a rounded magnitude of \<open>2^1024\<close> is an
  overflow. Every finite binary64 value is below it.
\<close>

definition overflow_bound :: rat where
  "overflow_bound = 2 ^ 1024"

definition round_double :: "rat \<Rightarrow> pyfloat" where
  "round_double q =
     (if q = 0 then Finite 0
      else (let m = round_mag \<bar>q\<bar>
            in if overflow_bound \<le> m then (if 0 < q then PosInf else NegInf)
               else Finite (if 0 < q then m else - m)))"

text \<open>A decimal float literal of the source denotes the nearest binary64 value.\<close>

definition float_lit :: "rat \<Rightarrow> pyfloat" where
  "float_lit q = round_double q"

fun fneg :: "pyfloat \<Rightarrow> pyfloat" where
  "fneg (Finite a) = Finite (- a)"
| "fneg PosInf = NegInf"
| "fneg NegInf = PosInf"
| "fneg NaN = NaN"

text \<open>\<^verbatim>\<open>x * y\<close> on floats. CPython does not raise on overflow here: the result is an infinity.\<close>

fun fmul :: "pyfloat \<Rightarrow> pyfloat \<Rightarrow> pyfloat" where
  "fmul (Finite a) (Finite b) = round_double (a * b)"
| "fmul NaN y = NaN"
| "fmul x NaN = NaN"
| "fmul (Finite a) PosInf = (if a = 0 then NaN else if 0 < a then PosInf else NegInf)"
| "fmul (Finite a) NegInf = (if a = 0 then NaN else if 0 < a then NegInf else PosInf)"
| "fmul PosInf (Finite b) = (if b = 0 then NaN else if 0 < b then PosInf else NegInf)"
| "fmul NegInf (Finite b) = (if b = 0 then NaN else if 0 < b then NegInf else PosInf)"
| "fmul PosInf PosInf = PosInf"
| "fmul PosInf NegInf = NegInf"
| "fmul NegInf PosInf = NegInf"
| "fmul NegInf NegInf = PosInf"

text \<open>\<^verbatim>\<open>x + y\<close> on floats; the sum of opposite infinities is NaN.\<close>

fun fadd :: "pyfloat \<Rightarrow> pyfloat \<Rightarrow> pyfloat" where
  "fadd (Finite a) (Finite b) = round_double (a + b)"
| "fadd NaN y = NaN"
| "fadd x NaN = NaN"
| "fadd (Finite a) PosInf = PosInf"
| "fadd (Finite a) NegInf = NegInf"
| "fadd PosInf (Finite b) = PosInf"
| "fadd NegInf (Finite b) = NegInf"
| "fadd PosInf PosInf = PosInf"
| "fadd NegInf NegInf = NegInf"
| "fadd PosInf NegInf = NaN"
| "fadd NegInf PosInf = NaN"

definition fsub :: "pyfloat \<Rightarrow> pyfloat \<Rightarrow> pyfloat" where
  "fsub x y = fadd x (fneg y)"

text \<open>
  \<^verbatim>\<open>x > n\<close> for a float \<open>x\<close> and an integer \<open>n\<close>. CPython compares the two values
  exactly; every comparison with NaN is false.
\<close>

fun float_gt_int :: "pyfloat \<Rightarrow> int \<Rightarrow> bool" where
  "float_gt_int (Finite a) n = (of_int n < a)"
| "float_gt_int PosInf n = True"
| "float_gt_int NegInf n = False"
| "float_gt_int NaN n = False"

text \<open>
  Converting an integer to a float, as \<^verbatim>\<open>int * float\<close> and \<^verbatim>\<open>int + float\<close> do
  before they operate: the nearest binary64 value, and \<^verbatim>\<open>OverflowError\<close> when that is
  out of range.
\<close>

datatype exn = ValueError string | OverflowError string

definition float_of_int :: "int \<Rightarrow> exn + pyfloat" where
  "float_of_int i =
     (case round_double (of_int i) of
        Finite a \<Rightarrow> Inr (Finite a)
      | _ \<Rightarrow> Inl (OverflowError ''int too large to convert to float''))"

definition int_mul_float :: "int \<Rightarrow> pyfloat \<Rightarrow> exn + pyfloat" where
  "int_mul_float i y = (case float_of_int i of Inl e \<Rightarrow> Inl e | Inr x \<Rightarrow> Inr (fmul x y))"

definition int_add_float :: "int \<Rightarrow> pyfloat \<Rightarrow> exn + pyfloat" where
  "int_add_float i y = (case float_of_int i of Inl e \<Rightarrow> Inl e | Inr x \<Rightarrow> Inr (fadd x y))"

text \<open>
  A value that is an \<^verbatim>\<open>int\<close> or a \<^verbatim>\<open>float\<close>: \<^verbatim>\<open>max(0, x)\<close> returns the integer
  \<^verbatim>\<open>0\<close> unless the float \<open>x\<close> is greater (\<^verbatim>\<open>max\<close> keeps its first argument unless a
  later one compares greater, so NaN gives \<^verbatim>\<open>0\<close>).
\<close>

datatype pynum = PyInt int | PyFloat pyfloat

definition py_max :: "int \<Rightarrow> pyfloat \<Rightarrow> pynum" where
  "py_max n x = (if float_gt_int x n then PyFloat x else PyInt n)"

text \<open>
  \<^verbatim>\<open>int(x)\<close>: an integer is returned as it is, a float is truncated towards zero;
  an infinity raises \<^verbatim>\<open>OverflowError\<close> and NaN raises \<^verbatim>\<open>ValueError\<close>.
\<close>

definition trunc_rat :: "rat \<Rightarrow> int" where
  "trunc_rat a = (if 0 \<le> a then \<lfloor>a\<rfloor> else \<lceil>a\<rceil>)"

fun py_int :: "pynum \<Rightarrow> exn + int" where
  "py_int (PyInt i) = Inr i"
| "py_int (PyFloat (Finite a)) = Inr (trunc_rat a)"
| "py_int (PyFloat NaN) = Inl (ValueError ''cannot convert float NaN to integer'')"
| "py_int (PyFloat x) = Inl (OverflowError ''cannot convert float infinity to integer'')"

section \<open>The catalogs\<close>

definition MEMBERSHIP_PLANS :: "string \<rightharpoonup> int" where
  "MEMBERSHIP_PLANS = map_of [(''Basic'', 50), (''Premium'', 100), (''Family'', 150)]"

record feature =
  name :: string
  cost :: int
  is_premium :: bool

definition ADDITIONAL_FEATURES :: "string \<rightharpoonup> feature" where
  "ADDITIONAL_FEATURES = map_of
     [(''1'', \<lparr>name = ''Personal Training'', cost = 30, is_premium = False\<rparr>),
      (''2'', \<lparr>name = ''Group Classes'', cost = 20, is_premium = False\<rparr>),
      (''3'', \<lparr>name = ''Sauna Access'', cost = 40, is_premium = True\<rparr>),
      (''4'', \<lparr>name = ''Nutritional Plan'', cost = 60, is_premium = True\<rparr>)]"

section \<open>Resolving the selected features\<close>

text \<open>
  \<^verbatim>\<open>
  def _get_features_details(selected_features_keys):
      features_cost = 0
      selected_names = []
      has_premium = False
      for key in selected_features_keys:
          if key in ADDITIONAL_FEATURES:
              feat = ADDITIONAL_FEATURES[key]
              features_cost += feat["cost"]
              selected_names.append(feat["name"])
              if feat["is_premium"]:
                  has_premium = True
          else:
              raise ValueError(f"Invalid feature key: {key}")
      return features_cost, selected_names, has_premium
  \<close>
  The \<^verbatim>\<open>for\<close> loop is a recursion on the list of keys that carries the three
  accumulators; an unknown key raises at once. An Isabelle name cannot start with an
  underscore, so the function is \<open>get_features_details\<close> here.
\<close>

fun features_loop ::
  "string list \<Rightarrow> int \<Rightarrow> string list \<Rightarrow> bool \<Rightarrow> exn + (int \<times> string list \<times> bool)" where
  "features_loop [] features_cost selected_names has_premium =
     Inr (features_cost, selected_names, has_premium)"
| "features_loop (key # keys) features_cost selected_names has_premium =
     (case ADDITIONAL_FEATURES key of
        Some feat \<Rightarrow>
          features_loop keys (features_cost + cost feat) (selected_names @ [name feat])
            (if is_premium feat then True else has_premium)
      | None \<Rightarrow> Inl (ValueError (''Invalid feature key: '' @ key)))"

definition get_features_details :: "string list \<Rightarrow> exn + (int \<times> string list \<times> bool)" where
  "get_features_details selected_features_keys = features_loop selected_features_keys 0 [] False"

section \<open>The pricing function\<close>

text \<open>The dictionary \<^verbatim>\<open>details\<close> that is returned beside the cost.\<close>

record details =
  base_total :: int
  surcharge :: pyfloat
  group_discount :: pyfloat
  special_discount :: pyfloat
  features_names :: "string list"

text \<open>
  \<^verbatim>\<open>
  def calculate_total_cost(plan_name, selected_features_keys, num_members):
      if plan_name not in MEMBERSHIP_PLANS:
          raise ValueError("Invalid membership plan.")
      base_cost = MEMBERSHIP_PLANS[plan_name]
      feat_cost, feat_names, has_premium = _get_features_details(selected_features_keys)
      total_gross = (base_cost + feat_cost) * num_members
      surcharge = total_gross * 0.15 if has_premium else 0.0
      total_after_surcharge = total_gross + surcharge
      group_discount = total_after_surcharge * 0.10 if num_members >= 2 else 0.0
      total_after_group = total_after_surcharge - group_discount
      special_discount = 0.0
      if total_after_group > 400:
          special_discount = 50.0
      elif total_after_group > 200:
          special_discount = 20.0
      final_total = max(0, total_after_group - special_discount)
      details = {"base_total": total_gross, "surcharge": surcharge,
                 "group_discount": group_discount, "special_discount": special_discount,
                 "features_names": feat_names}
      return int(final_total), details
  \<close>
  The function is modelled in two steps. \<open>pricing_locals\<close> computes the local
  variables as they are at the \<^verbatim>\<open>return\<close> statement, in the order of the source;
  those that go into \<^verbatim>\<open>details\<close> are held there. \<open>calculate_total_cost\<close> then
  applies \<^verbatim>\<open>int\<close> to \<open>final_total\<close> and returns the pair. \<open>total_gross\<close> is an
  integer; it becomes a float inside \<^verbatim>\<open>total_gross * 0.15\<close> and inside
  \<^verbatim>\<open>total_gross + surcharge\<close>. The bound variables \<open>gross\<close>, \<open>sur\<close>,
  \<open>after_surcharge\<close>, \<open>group\<close>, \<open>after_group\<close> and \<open>special\<close> stand for the
  locals whose names are taken by the fields of the two records.
\<close>

record pricing =
  total_gross :: int
  total_after_surcharge :: pyfloat
  total_after_group :: pyfloat
  final_total :: pynum
  details :: details

definition pricing_locals :: "string \<Rightarrow> string list \<Rightarrow> int \<Rightarrow> exn + pricing" where
  "pricing_locals plan_name selected_features_keys num_members =
     (case MEMBERSHIP_PLANS plan_name of
        None \<Rightarrow> Inl (ValueError ''Invalid membership plan.'')
      | Some base_cost \<Rightarrow>
     (case get_features_details selected_features_keys of
        Inl e \<Rightarrow> Inl e
      | Inr (feat_cost, feat_names, has_premium) \<Rightarrow>
     (let gross = (base_cost + feat_cost) * num_members in
     (case (if has_premium then int_mul_float gross (float_lit (15 / 100))
            else Inr (Finite 0)) of
        Inl e \<Rightarrow> Inl e
      | Inr sur \<Rightarrow>
     (case int_add_float gross sur of
        Inl e \<Rightarrow> Inl e
      | Inr after_surcharge \<Rightarrow>
     (let group = (if 2 \<le> num_members then fmul after_surcharge (float_lit (10 / 100))
                   else Finite 0);
          after_group = fsub after_surcharge group;
          special = (if float_gt_int after_group 400 then Finite 50
                     else if float_gt_int after_group 200 then Finite 20
                     else Finite 0)
      in Inr \<lparr>total_gross = gross,
               total_after_surcharge = after_surcharge,
               total_after_group = after_group,
               final_total = py_max 0 (fsub after_group special),
               details = \<lparr>base_total = gross, surcharge = sur, group_discount = group,
                            special_discount = special, features_names = feat_names\<rparr>\<rparr>))))))"

definition calculate_total_cost :: "string \<Rightarrow> string list \<Rightarrow> int \<Rightarrow> exn + (int \<times> details)" where
  "calculate_total_cost plan_name selected_features_keys num_members =
     (case pricing_locals plan_name selected_features_keys num_members of
        Inl e \<Rightarrow> Inl e
      | Inr s \<Rightarrow>
          (case py_int (final_total s) of
             Inl e \<Rightarrow> Inl e
           | Inr final_cost \<Rightarrow> Inr (final_cost, details s)))"

section \<open>The pipeline as the specification words it\<close>


section \<open>The class of an exception\<close>

text \<open>What \<^verbatim>\<open>type(e).__name__\<close> gives for an exception: the kind a caller can catch by.\<close>

fun exn_class :: "exn \<Rightarrow> string" where
  "exn_class (ValueError msg) = ''ValueError''"
| "exn_class (OverflowError msg) = ''OverflowError''"

section \<open>Rounding to binary64\<close>

lemma overflow_bound_code [code]:
  "overflow_bound = 179769313486231590772930519078902473361797697894230657273430081157732675805500963132708477322407536021120113879871393357658789768814416622492847430639474124377767893424865485276302219601246094119453082952085005768838150682342462881473913110540827237163350510684586298239947245938479716304835356329624224137216"
  by (simp add: overflow_bound_def)

lemma pow2_powi: "pow2 e = 2 powi e"
  by (simp add: pow2_def power_int_def field_simps power_inverse)

lemma pow2_pos: "0 < pow2 e"
  by (simp add: pow2_powi)

lemma pow2_add: "pow2 (a + b) = pow2 a * pow2 b"
  by (simp add: pow2_powi power_int_add)

lemma pow2_mono: "a \<le> b \<Longrightarrow> pow2 a \<le> pow2 b"
  by (simp add: pow2_powi power_int_increasing)

lemma pow2_nat: "0 \<le> e \<Longrightarrow> pow2 e = 2 ^ nat e"
  by (simp add: pow2_def)

lemma ilog2_lower:
  assumes "0 < q"
  shows "pow2 (ilog2 q) \<le> q"
proof -
  obtain n d where nd: "quotient_of q = (n, d)"
    by (cases "quotient_of q")
  have d: "0 < d" using nd by (rule quotient_of_denom_pos)
  have q: "q = of_int n / of_int d" using nd by (rule quotient_of_div)
  have n: "0 < n"
    using assms d q by (simp add: zero_less_divide_iff)
  define k where "k = bitlen n - bitlen d"
  have "pow2 (k - 1) \<le> q"
  proof -
    have bn: "1 \<le> bitlen n" using n by (simp add: bitlen_alt_def)
    have bd: "1 \<le> bitlen d" using d by (simp add: bitlen_alt_def)
    have "(2::int) ^ nat (bitlen n - 1) \<le> n"
      using bitlen_bounds [OF n] by simp
    then have "(of_int ((2::int) ^ nat (bitlen n - 1)) :: rat) \<le> of_int n"
      by (simp only: of_int_le_iff)
    then have ln: "pow2 (bitlen n - 1) \<le> of_int n"
      using bn by (simp add: pow2_nat)
    have "d < (2::int) ^ nat (bitlen d)"
      using bitlen_bounds [OF d] by simp
    then have "(of_int d :: rat) < of_int ((2::int) ^ nat (bitlen d))"
      by (simp only: of_int_less_iff)
    then have ud: "of_int d \<le> pow2 (bitlen d)"
      using bd by (simp add: pow2_nat)
    have "pow2 (k - 1) * pow2 (bitlen d) = pow2 (bitlen n - 1)"
      by (simp add: k_def pow2_add [symmetric])
    then have "pow2 (k - 1) * pow2 (bitlen d) \<le> of_int n"
      using ln by simp
    moreover have "pow2 (k - 1) * of_int d \<le> pow2 (k - 1) * pow2 (bitlen d)"
      using ud pow2_pos [of "k - 1"] by (simp add: mult_left_mono)
    ultimately have "pow2 (k - 1) * of_int d \<le> of_int n"
      by simp
    then show ?thesis
      using d by (simp add: q pos_le_divide_eq)
  qed
  then show ?thesis
    by (simp add: ilog2_def nd k_def Let_def)
qed

text \<open>With the lower bound, this fixes \<open>ilog2 q\<close> as the binary exponent of \<open>q\<close>.\<close>

lemma ilog2_upper:
  assumes "0 < q"
  shows "q < pow2 (ilog2 q + 1)"
proof -
  obtain n d where nd: "quotient_of q = (n, d)"
    by (cases "quotient_of q")
  have d: "0 < d" using nd by (rule quotient_of_denom_pos)
  have q: "q = of_int n / of_int d" using nd by (rule quotient_of_div)
  have n: "0 < n"
    using assms d q by (simp add: zero_less_divide_iff)
  define k where "k = bitlen n - bitlen d"
  have "q < pow2 (k + 1)"
  proof -
    have bn: "1 \<le> bitlen n" using n by (simp add: bitlen_alt_def)
    have bd: "1 \<le> bitlen d" using d by (simp add: bitlen_alt_def)
    have "n < (2::int) ^ nat (bitlen n)"
      using bitlen_bounds [OF n] by simp
    then have "(of_int n :: rat) < of_int ((2::int) ^ nat (bitlen n))"
      by (simp only: of_int_less_iff)
    then have un: "of_int n < pow2 (bitlen n)"
      using bn by (simp add: pow2_nat)
    have "(2::int) ^ nat (bitlen d - 1) \<le> d"
      using bitlen_bounds [OF d] by simp
    then have "(of_int ((2::int) ^ nat (bitlen d - 1)) :: rat) \<le> of_int d"
      by (simp only: of_int_le_iff)
    then have ld: "pow2 (bitlen d - 1) \<le> of_int d"
      using bd by (simp add: pow2_nat)
    have "pow2 (k + 1) * pow2 (bitlen d - 1) = pow2 (bitlen n)"
      by (simp add: k_def pow2_add [symmetric])
    then have "of_int n < pow2 (k + 1) * pow2 (bitlen d - 1)"
      using un by simp
    also have "\<dots> \<le> pow2 (k + 1) * of_int d"
      using ld pow2_pos [of "k + 1"] by (simp add: mult_left_mono)
    finally show ?thesis
      using d by (simp add: q pos_divide_less_eq)
  qed
  moreover have "\<not> pow2 k \<le> q \<Longrightarrow> q < pow2 (k - 1 + 1)" by simp
  ultimately show ?thesis
    by (simp add: ilog2_def nd k_def Let_def)
qed

lemma round_half_even_bounds:
  "\<lfloor>x\<rfloor> \<le> round_half_even x \<and> round_half_even x \<le> \<lfloor>x\<rfloor> + 1"
  by (simp add: round_half_even_def Let_def)

lemma round_half_even_upper: "of_int (round_half_even x) \<le> x + 1"
proof -
  have "(of_int (round_half_even x) :: rat) \<le> of_int (\<lfloor>x\<rfloor> + 1)"
    using round_half_even_bounds [of x] by (simp only: of_int_le_iff)
  also have "\<dots> \<le> x + 1" by simp
  finally show ?thesis .
qed

lemma round_half_even_ge:
  assumes "of_int N \<le> x"
  shows "N \<le> round_half_even x"
proof -
  from assms have "N \<le> \<lfloor>x\<rfloor>" by (simp add: le_floor_iff)
  with round_half_even_bounds [of x] show ?thesis by linarith
qed

lemma round_mag_nonneg: "0 \<le> q \<Longrightarrow> 0 \<le> round_mag q"
proof -
  assume q: "0 \<le> q"
  define u where "u = pow2 (max (ilog2 q) (- 1022) - 52)"
  have u: "0 < u" by (simp add: u_def pow2_pos)
  have "of_int 0 \<le> q / u" using q u by simp
  then have "0 \<le> round_half_even (q / u)" by (rule round_half_even_ge)
  then show ?thesis
    using u by (simp add: round_mag_def Let_def u_def [symmetric])
qed

lemma round_mag_upper:
  assumes "0 < q"
  shows "round_mag q \<le> 2 * q + 1"
proof -
  define e where "e = max (ilog2 q) (- 1022)"
  define u where "u = pow2 (e - 52)"
  have u: "0 < u" by (simp add: u_def pow2_pos)
  have m: "round_mag q = of_int (round_half_even (q / u)) * u"
    by (simp add: round_mag_def Let_def u_def e_def)
  have "of_int (round_half_even (q / u)) * u \<le> (q / u + 1) * u"
    using round_half_even_upper [of "q / u"] u by (simp only: mult_right_mono less_imp_le)
  also have "\<dots> = q + u" using u by (simp add: field_simps)
  finally have qu: "round_mag q \<le> q + u" by (simp add: m)
  have "u \<le> q + 1"
  proof (cases "- 1022 \<le> ilog2 q")
    case True
    then have "e = ilog2 q" by (simp add: e_def)
    then have "u \<le> pow2 (ilog2 q)" by (simp add: u_def pow2_mono)
    also have "\<dots> \<le> q" using assms by (rule ilog2_lower)
    finally show ?thesis by simp
  next
    case False
    then have "e = - 1022" by (simp add: e_def)
    then have "u \<le> pow2 0" by (simp add: u_def pow2_mono)
    then show ?thesis using assms by (simp add: pow2_def)
  qed
  with qu show ?thesis by simp
qed




lemma round_mag_finite:
  assumes "0 < q" and "q \<le> 2 ^ 1023"
  shows "round_mag q < overflow_bound"
proof -
  define e where "e = max (ilog2 q) (- 1022)"
  define u where "u = pow2 (e - 52)"
  have u: "0 < u" by (simp add: u_def pow2_pos)
  have m: "round_mag q = of_int (round_half_even (q / u)) * u"
    by (simp add: round_mag_def Let_def u_def e_def)
  have "of_int (round_half_even (q / u)) * u \<le> (q / u + 1) * u"
    using round_half_even_upper [of "q / u"] u by (simp only: mult_right_mono less_imp_le)
  also have "\<dots> = q + u" using u by (simp add: field_simps)
  finally have qu: "round_mag q \<le> q + u" by (simp add: m)
  have "u \<le> 2 ^ 1022"
  proof (cases "- 1022 \<le> ilog2 q")
    case True
    then have "e = ilog2 q" by (simp add: e_def)
    then have "u \<le> pow2 (ilog2 q - 1)" by (simp add: u_def pow2_mono)
    moreover have "pow2 (ilog2 q - 1) * 2 = pow2 (ilog2 q)"
      using pow2_add [of "ilog2 q - 1" 1] by (simp add: pow2_def)
    moreover have "pow2 (ilog2 q) \<le> q" using assms(1) by (rule ilog2_lower)
    ultimately have "u * 2 \<le> 2 ^ 1023" using assms(2) by linarith
    then show ?thesis by simp
  next
    case False
    then have "e = - 1022" by (simp add: e_def)
    then have "u \<le> pow2 0" by (simp add: u_def pow2_mono)
    also have "\<dots> \<le> 2 ^ 1022" by (simp add: pow2_def)
    finally show ?thesis .
  qed
  with qu assms(2) have "round_mag q \<le> 2 ^ 1023 + 2 ^ 1022" by linarith
  also have "\<dots> < (2::rat) ^ 1024" by simp
  finally show ?thesis by (simp add: overflow_bound_def)
qed

lemma round_double_finite:
  assumes "\<bar>q\<bar> \<le> 2 ^ 1023"
  shows "\<exists>r. round_double q = Finite r \<and> \<bar>r\<bar> \<le> 2 * \<bar>q\<bar> + 1
           \<and> (0 \<le> q \<longrightarrow> 0 \<le> r) \<and> (q \<le> 0 \<longrightarrow> r \<le> 0)"
proof (cases "q = 0")
  case True
  then show ?thesis by (simp add: round_double_def)
next
  case False
  then have pos: "0 < \<bar>q\<bar>" by simp
  have fin: "\<not> overflow_bound \<le> round_mag \<bar>q\<bar>"
    using round_mag_finite [OF pos assms] by simp
  have nn: "0 \<le> round_mag \<bar>q\<bar>" by (simp add: round_mag_nonneg)
  have up: "round_mag \<bar>q\<bar> \<le> 2 * \<bar>q\<bar> + 1" using pos by (rule round_mag_upper)
  show ?thesis
    using False fin nn up by (auto simp add: round_double_def Let_def)
qed



lemma float_of_int_finite:
  assumes "\<bar>i\<bar> \<le> 2 ^ 1023"
  shows "\<exists>r. float_of_int i = Inr (Finite r) \<and> \<bar>r\<bar> \<le> 2 * \<bar>of_int i\<bar> + 1
           \<and> (0 \<le> i \<longrightarrow> 0 \<le> r) \<and> (i \<le> 0 \<longrightarrow> r \<le> 0)"
proof -
  have "(of_int \<bar>i\<bar> :: rat) \<le> of_int (2 ^ 1023)"
    using assms by (simp only: of_int_le_iff)
  then have "\<bar>of_int i :: rat\<bar> \<le> 2 ^ 1023" by simp
  from round_double_finite [OF this] show ?thesis
    by (auto simp add: float_of_int_def)
qed



section \<open>The feature loop and the locals of the pricing function\<close>

lemma features_loop_valid:
  "map ADDITIONAL_FEATURES keys = map Some feats \<Longrightarrow>
   features_loop keys c ns hp =
     Inr (c + sum_list (map cost feats), ns @ map name feats,
          hp \<or> (\<exists>f \<in> set feats. is_premium f))"
proof (induction keys arbitrary: feats c ns hp)
  case Nil
  then show ?case by simp
next
  case (Cons key keys)
  from Cons.prems obtain f fs where feats: "feats = f # fs"
    and f: "ADDITIONAL_FEATURES key = Some f"
    and fs: "map ADDITIONAL_FEATURES keys = map Some fs"
    by (cases feats) auto
  show ?case
    by (auto simp add: feats f Cons.IH [OF fs])
qed

lemma get_features_details_valid:
  "map ADDITIONAL_FEATURES keys = map Some feats \<Longrightarrow>
   get_features_details keys =
     Inr (sum_list (map cost feats), map name feats, \<exists>f \<in> set feats. is_premium f)"
  by (simp add: get_features_details_def features_loop_valid)

lemma pricing_locals_overflow:
  assumes "MEMBERSHIP_PLANS p = Some b"
    and "map ADDITIONAL_FEATURES keys = map Some feats"
    and "float_of_int ((b + sum_list (map cost feats)) * m) = Inl e"
  shows "pricing_locals p keys m = Inl e"
  using assms
  by (simp add: pricing_locals_def get_features_details_valid Let_def
      int_mul_float_def int_add_float_def)

lemma pricing_locals_fields:
  assumes "MEMBERSHIP_PLANS p = Some b"
    and "map ADDITIONAL_FEATURES keys = map Some feats"
    and "float_of_int ((b + sum_list (map cost feats)) * m) = Inr g"
  shows "\<exists>s. pricing_locals p keys m = Inr s
    \<and> total_gross s = (b + sum_list (map cost feats)) * m
    \<and> base_total (details s) = (b + sum_list (map cost feats)) * m
    \<and> features_names (details s) = map name feats
    \<and> surcharge (details s) =
        (if \<exists>f \<in> set feats. is_premium f then fmul g (float_lit (15 / 100)) else Finite 0)
    \<and> total_after_surcharge s = fadd g (surcharge (details s))
    \<and> group_discount (details s) =
        (if 2 \<le> m then fmul (total_after_surcharge s) (float_lit (10 / 100)) else Finite 0)
    \<and> total_after_group s = fsub (total_after_surcharge s) (group_discount (details s))
    \<and> special_discount (details s) =
        (if float_gt_int (total_after_group s) 400 then Finite 50
         else if float_gt_int (total_after_group s) 200 then Finite 20 else Finite 0)
    \<and> final_total s = py_max 0 (fsub (total_after_group s) (special_discount (details s)))"
proof (cases "\<exists>f \<in> set feats. is_premium f")
  case True
  then show ?thesis
    using assms
    by (simp add: pricing_locals_def get_features_details_valid Let_def
        int_mul_float_def int_add_float_def split del: if_split cong: if_cong sum.case_cong)
next
  case False
  then show ?thesis
    using assms
    by (simp add: pricing_locals_def get_features_details_valid Let_def
        int_mul_float_def int_add_float_def split del: if_split cong: if_cong sum.case_cong)
qed

lemma features_loop_invalid:
  "map ADDITIONAL_FEATURES pre = map Some feats \<Longrightarrow> ADDITIONAL_FEATURES key = None \<Longrightarrow>
   features_loop (pre @ key # rest) c ns hp = Inl (ValueError (''Invalid feature key: '' @ key))"
proof (induction pre arbitrary: feats c ns hp)
  case Nil
  then show ?case by simp
next
  case (Cons k pre)
  from Cons.prems(1) obtain f fs where f: "ADDITIONAL_FEATURES k = Some f"
    and fs: "map ADDITIONAL_FEATURES pre = map Some fs"
    by (cases feats) auto
  from Cons.IH [OF fs Cons.prems(2)] show ?case
    by (simp add: f)
qed

lemma valid_keys_features:
  "set keys \<subseteq> dom ADDITIONAL_FEATURES \<Longrightarrow>
   map ADDITIONAL_FEATURES keys = map Some (map (\<lambda>k. the (ADDITIONAL_FEATURES k)) keys)"
  by (induction keys) auto

lemma calculate_total_cost_no_plan:
  "MEMBERSHIP_PLANS p = None \<Longrightarrow>
   calculate_total_cost p keys m = Inl (ValueError ''Invalid membership plan.'')"
  by (simp add: calculate_total_cost_def pricing_locals_def)

lemma calculate_total_cost_bad_key:
  assumes "MEMBERSHIP_PLANS p = Some b"
    and "set pre \<subseteq> dom ADDITIONAL_FEATURES"
    and "ADDITIONAL_FEATURES key = None"
  shows "calculate_total_cost p (pre @ key # rest) m =
           Inl (ValueError (''Invalid feature key: '' @ key))"
proof -
  from assms(2) have pre: "map ADDITIONAL_FEATURES pre =
      map Some (map (\<lambda>k. the (ADDITIONAL_FEATURES k)) pre)"
    by (induction pre) auto
  have "get_features_details (pre @ key # rest) =
      Inl (ValueError (''Invalid feature key: '' @ key))"
    unfolding get_features_details_def by (rule features_loop_invalid [OF pre assms(3)])
  with assms(1) show ?thesis
    by (simp add: calculate_total_cost_def pricing_locals_def)
qed

section \<open>The catalogs hold positive prices\<close>

lemma plan_positive: "MEMBERSHIP_PLANS p = Some b \<Longrightarrow> 0 < b"
  by (auto simp add: MEMBERSHIP_PLANS_def split: if_splits)

lemma feature_cost_positive: "ADDITIONAL_FEATURES k = Some f \<Longrightarrow> 0 < cost f"
  by (auto simp add: ADDITIONAL_FEATURES_def split: if_splits)

lemma features_cost_nonneg:
  "map ADDITIONAL_FEATURES keys = map Some feats \<Longrightarrow> 0 \<le> sum_list (map cost feats)"
proof (induction keys arbitrary: feats)
  case Nil
  then show ?case by simp
next
  case (Cons k keys)
  from Cons.prems obtain f fs where feats: "feats = f # fs"
    and f: "ADDITIONAL_FEATURES k = Some f"
    and fs: "map ADDITIONAL_FEATURES keys = map Some fs"
    by (cases feats) auto
  from feature_cost_positive [OF f] Cons.IH [OF fs] show ?case
    by (simp add: feats)
qed

lemma gross_nonneg:
  assumes "MEMBERSHIP_PLANS p = Some b"
    and "map ADDITIONAL_FEATURES keys = map Some feats"
  shows "0 < b + sum_list (map cost feats)"
  using plan_positive [OF assms(1)] features_cost_nonneg [OF assms(2)] by simp

section \<open>The two percentages as floats\<close>

lemma float_lit_15: "float_lit (15 / 100) = Finite (5404319552844595 / 36028797018963968)"
  by code_simp

lemma float_lit_10: "float_lit (10 / 100) = Finite (3602879701896397 / 36028797018963968)"
  by code_simp

lemma float_lit_15_normal: "float_lit (3 / 20) = Finite (5404319552844595 / 36028797018963968)"
  using float_lit_15 by simp

lemma float_lit_10_normal: "float_lit (1 / 10) = Finite (3602879701896397 / 36028797018963968)"
  using float_lit_10 by simp

section \<open>Signs and magnitudes through the float operations\<close>





lemma py_int_py_max_nonneg:
  assumes "py_int (py_max 0 x) = Inr c"
  shows "0 \<le> c"
proof (cases "float_gt_int x 0")
  case True
  with assms show ?thesis
    by (cases x) (auto simp add: py_max_def trunc_rat_def split: if_splits)
next
  case False
  with assms show ?thesis by (simp add: py_max_def)
qed

lemma py_int_py_max_Inl:
  assumes "py_int (py_max 0 x) = Inl e"
  shows "e = OverflowError ''cannot convert float infinity to integer'' \<and> x = PosInf"
  using assms by (cases x) (auto simp add: py_max_def split: if_splits)

lemma round_double_bounded:
  assumes "\<bar>q\<bar> \<le> 2 ^ n" and "n \<le> 1021"
  shows "\<exists>r. round_double q = Finite r \<and> \<bar>r\<bar> \<le> 2 ^ (n + 2)"
proof -
  have "(2::rat) ^ n \<le> 2 ^ 1023"
    using assms(2) by (intro power_increasing) simp_all
  with assms(1) have "\<bar>q\<bar> \<le> 2 ^ 1023" by simp
  from round_double_finite [OF this] obtain r where
    r: "round_double q = Finite r" and b: "\<bar>r\<bar> \<le> 2 * \<bar>q\<bar> + 1"
    by blast
  have "(1::rat) \<le> 2 ^ n" by simp
  with b assms(1) have "\<bar>r\<bar> \<le> 4 * 2 ^ n" by linarith
  then have "\<bar>r\<bar> \<le> 2 ^ (n + 2)" by simp
  with r show ?thesis by blast
qed

lemma fmul_bounded:
  assumes "\<bar>a\<bar> \<le> 2 ^ n" and "\<bar>c\<bar> \<le> 1" and "n \<le> 1021"
  shows "\<exists>r. fmul (Finite a) (Finite c) = Finite r \<and> \<bar>r\<bar> \<le> 2 ^ (n + 2)"
proof -
  have "\<bar>a * c\<bar> = \<bar>a\<bar> * \<bar>c\<bar>" by (simp add: abs_mult)
  also have "\<dots> \<le> 2 ^ n * 1"
    using assms(1,2) by (intro mult_mono) simp_all
  finally have "\<bar>a * c\<bar> \<le> 2 ^ n" by simp
  from round_double_bounded [OF this assms(3)] show ?thesis by simp
qed

lemma fadd_bounded:
  assumes "\<bar>a\<bar> \<le> 2 ^ n" and "\<bar>b\<bar> \<le> 2 ^ n" and "n \<le> 1020"
  shows "\<exists>r. fadd (Finite a) (Finite b) = Finite r \<and> \<bar>r\<bar> \<le> 2 ^ (n + 3)"
proof -
  from assms(1,2) have "\<bar>a + b\<bar> \<le> 2 ^ (n + 1)" by simp
  moreover from assms(3) have "n + 1 \<le> 1021" by simp
  ultimately have "\<exists>r. round_double (a + b) = Finite r \<and> \<bar>r\<bar> \<le> 2 ^ (n + 1 + 2)"
    by (rule round_double_bounded)
  moreover have "n + 1 + 2 = n + 3" by simp
  ultimately show ?thesis by (simp only: fadd.simps)
qed

lemma fsub_bounded:
  assumes "\<bar>a\<bar> \<le> 2 ^ n" and "\<bar>b\<bar> \<le> 2 ^ n" and "n \<le> 1020"
  shows "\<exists>r. fsub (Finite a) (Finite b) = Finite r \<and> \<bar>r\<bar> \<le> 2 ^ (n + 3)"
proof -
  from assms(2) have "\<bar>- b\<bar> \<le> 2 ^ n" by simp
  from fadd_bounded [OF assms(1) this assms(3)] show ?thesis
    by (simp add: fsub_def)
qed

lemma float_of_int_Inl:
  assumes "float_of_int i = Inl e"
  shows "e = OverflowError ''int too large to convert to float'' \<and> 2 ^ 1023 < \<bar>i\<bar>"
proof -
  from assms have "e = OverflowError ''int too large to convert to float''"
    by (simp add: float_of_int_def split: pyfloat.splits)
  moreover have "2 ^ 1023 < \<bar>i\<bar>"
  proof (rule ccontr)
    assume "\<not> 2 ^ 1023 < \<bar>i\<bar>"
    then have "\<bar>i\<bar> \<le> 2 ^ 1023" by simp
    from float_of_int_finite [OF this] assms show False by auto
  qed
  ultimately show ?thesis by simp
qed

lemma float_of_int_Inr: "float_of_int i = Inr x \<Longrightarrow> \<exists>a. x = Finite a"
  by (cases "round_double (of_int i)") (auto simp add: float_of_int_def)



section \<open>When the pricing function returns\<close>

lemma pricing_locals_Inr:
  assumes "MEMBERSHIP_PLANS p = Some b"
    and "map ADDITIONAL_FEATURES keys = map Some feats"
    and "pricing_locals p keys m = Inr s"
  shows "\<exists>g. float_of_int ((b + sum_list (map cost feats)) * m) = Inr (Finite g)
    \<and> total_gross s = (b + sum_list (map cost feats)) * m
    \<and> base_total (details s) = (b + sum_list (map cost feats)) * m
    \<and> features_names (details s) = map name feats
    \<and> surcharge (details s) =
        (if \<exists>f \<in> set feats. is_premium f then fmul (Finite g) (float_lit (15 / 100))
         else Finite 0)
    \<and> total_after_surcharge s = fadd (Finite g) (surcharge (details s))
    \<and> group_discount (details s) =
        (if 2 \<le> m then fmul (total_after_surcharge s) (float_lit (10 / 100)) else Finite 0)
    \<and> total_after_group s = fsub (total_after_surcharge s) (group_discount (details s))
    \<and> special_discount (details s) =
        (if float_gt_int (total_after_group s) 400 then Finite 50
         else if float_gt_int (total_after_group s) 200 then Finite 20 else Finite 0)
    \<and> final_total s = py_max 0 (fsub (total_after_group s) (special_discount (details s)))"
proof (cases "float_of_int ((b + sum_list (map cost feats)) * m)")
  case (Inl e)
  from pricing_locals_overflow [OF assms(1,2) Inl] assms(3) show ?thesis by simp
next
  case (Inr x)
  from float_of_int_Inr [OF Inr] obtain g where x: "x = Finite g" ..
  from pricing_locals_fields [OF assms(1,2) Inr] assms(3) show ?thesis
    by (auto simp add: Inr x)
qed

lemma pricing_returns:
  assumes plan: "MEMBERSHIP_PLANS p = Some b"
    and keys: "map ADDITIONAL_FEATURES keys = map Some feats"
    and bound: "\<bar>(b + sum_list (map cost feats)) * m\<bar> \<le> 2 ^ 1000"
  shows "\<exists>c d. calculate_total_cost p keys m = Inr (c, d)"
proof -
  let ?G = "(b + sum_list (map cost feats)) * m"
  have "\<bar>?G\<bar> \<le> 2 ^ 1023"
    using bound by (rule order_trans) simp
  from float_of_int_finite [OF this] obtain g where
    g: "float_of_int ?G = Inr (Finite g)" and gb: "\<bar>g\<bar> \<le> 2 * \<bar>of_int ?G\<bar> + 1"
    by blast
  have "(of_int \<bar>?G\<bar> :: rat) \<le> of_int (2 ^ 1000)"
    using bound by (simp only: of_int_le_iff)
  then have "\<bar>of_int ?G :: rat\<bar> \<le> 2 ^ 1000" by simp
  with gb have g2: "\<bar>g\<bar> \<le> 2 ^ 1002" by simp
  from pricing_locals_fields [OF plan keys g] obtain s where
    s: "pricing_locals p keys m = Inr s"
    and sur: "surcharge (details s) =
        (if \<exists>f \<in> set feats. is_premium f then fmul (Finite g) (float_lit (15 / 100))
         else Finite 0)"
    and tas: "total_after_surcharge s = fadd (Finite g) (surcharge (details s))"
    and grp: "group_discount (details s) =
        (if 2 \<le> m then fmul (total_after_surcharge s) (float_lit (10 / 100)) else Finite 0)"
    and tag: "total_after_group s = fsub (total_after_surcharge s) (group_discount (details s))"
    and spc: "special_discount (details s) =
        (if float_gt_int (total_after_group s) 400 then Finite 50
         else if float_gt_int (total_after_group s) 200 then Finite 20 else Finite 0)"
    and fin: "final_total s = py_max 0 (fsub (total_after_group s) (special_discount (details s)))"
    by blast
  have "\<exists>r. surcharge (details s) = Finite r \<and> \<bar>r\<bar> \<le> 2 ^ 1004"
  proof (cases "\<exists>f \<in> set feats. is_premium f")
    case True
    have "\<exists>r. fmul (Finite g) (Finite (5404319552844595 / 36028797018963968)) = Finite r
        \<and> \<bar>r\<bar> \<le> 2 ^ (1002 + 2)"
      using g2 by (rule fmul_bounded) simp_all
    with True show ?thesis by (simp add: sur float_lit_15_normal)
  next
    case False
    then show ?thesis by (simp add: sur)
  qed
  then obtain r1 where r1: "surcharge (details s) = Finite r1" and b1: "\<bar>r1\<bar> \<le> 2 ^ 1004"
    by blast
  have "\<bar>g\<bar> \<le> 2 ^ 1004" using g2 by (rule order_trans) simp
  then have "\<exists>r. fadd (Finite g) (Finite r1) = Finite r \<and> \<bar>r\<bar> \<le> 2 ^ (1004 + 3)"
    using b1 by (rule fadd_bounded) simp
  then obtain r2 where r2: "total_after_surcharge s = Finite r2" and b2: "\<bar>r2\<bar> \<le> 2 ^ 1007"
    by (auto simp add: tas r1)
  have "\<exists>r. group_discount (details s) = Finite r \<and> \<bar>r\<bar> \<le> 2 ^ 1009"
  proof (cases "2 \<le> m")
    case True
    have "\<exists>r. fmul (Finite r2) (Finite (3602879701896397 / 36028797018963968)) = Finite r
        \<and> \<bar>r\<bar> \<le> 2 ^ (1007 + 2)"
      using b2 by (rule fmul_bounded) simp_all
    with True show ?thesis by (simp add: grp r2 float_lit_10_normal)
  next
    case False
    then show ?thesis by (simp add: grp)
  qed
  then obtain r3 where r3: "group_discount (details s) = Finite r3" and b3: "\<bar>r3\<bar> \<le> 2 ^ 1009"
    by blast
  have "\<bar>r2\<bar> \<le> 2 ^ 1009" using b2 by (rule order_trans) simp
  then have "\<exists>r. fsub (Finite r2) (Finite r3) = Finite r \<and> \<bar>r\<bar> \<le> 2 ^ (1009 + 3)"
    using b3 by (rule fsub_bounded) simp
  then obtain r4 where r4: "total_after_group s = Finite r4" and b4: "\<bar>r4\<bar> \<le> 2 ^ 1012"
    by (auto simp add: tag r2 r3)
  have "\<exists>r. special_discount (details s) = Finite r \<and> \<bar>r\<bar> \<le> 2 ^ 1012"
    by (simp add: spc)
  then obtain r5 where r5: "special_discount (details s) = Finite r5" and b5: "\<bar>r5\<bar> \<le> 2 ^ 1012"
    by blast
  have "\<exists>r. fsub (Finite r4) (Finite r5) = Finite r \<and> \<bar>r\<bar> \<le> 2 ^ (1012 + 3)"
    using b4 b5 by (rule fsub_bounded) simp
  then obtain r6 where "final_total s = py_max 0 (Finite r6)"
    by (auto simp add: fin r4 r5)
  then have "\<exists>c. py_int (final_total s) = Inr c"
    by (simp add: py_max_def)
  then show ?thesis
    by (auto simp add: calculate_total_cost_def s)
qed


section \<open>The pricing pipeline\<close>




section \<open>The scenarios of the test suite\<close>

lemma scenario_1: "map_sum id fst (calculate_total_cost ''Basic'' [] 1) = Inr 50"
  by code_simp

lemma scenario_2: "map_sum id fst (calculate_total_cost ''Premium'' [''2''] 1) = Inr 120"
  by code_simp

lemma scenario_3: "map_sum id fst (calculate_total_cost ''Basic'' [] 2) = Inr 90"
  by code_simp

lemma scenario_4: "map_sum id fst (calculate_total_cost ''Basic'' [''3''] 1) = Inr 103"
  by code_simp

lemma scenario_5: "map_sum id fst (calculate_total_cost ''Family'' [] 2) = Inr 250"
  by code_simp

lemma scenario_6: "map_sum id fst (calculate_total_cost ''Family'' [] 4) = Inr 490"
  by code_simp

lemma scenario_7: "map_sum id fst (calculate_total_cost ''Premium'' [''4''] 2) = Inr 311"
  by code_simp

text \<open>
  Claim C2. The seven scenarios of the specification, which are those of the test suite:
  the cost returned for (Basic, no feature, 1 member) is 50, for (Premium, feature 2, 1)
  it is 120, for (Basic, none, 2) it is 90, for (Basic, feature 3, 1) it is 103, for
  (Family, none, 2) it is 250, for (Family, none, 4) it is 490 and for
  (Premium, feature 4, 2) it is 311.
\<close>

theorem concrete_scenarios:
  "map_sum id fst (calculate_total_cost ''Basic'' [] 1) = Inr 50
   \<and> map_sum id fst (calculate_total_cost ''Premium'' [''2''] 1) = Inr 120
   \<and> map_sum id fst (calculate_total_cost ''Basic'' [] 2) = Inr 90
   \<and> map_sum id fst (calculate_total_cost ''Basic'' [''3''] 1) = Inr 103
   \<and> map_sum id fst (calculate_total_cost ''Family'' [] 2) = Inr 250
   \<and> map_sum id fst (calculate_total_cost ''Family'' [] 4) = Inr 490
   \<and> map_sum id fst (calculate_total_cost ''Premium'' [''4''] 2) = Inr 311"
  by (intro conjI scenario_1 scenario_2 scenario_3 scenario_4 scenario_5 scenario_6 scenario_7)

section \<open>Truncation of the final total\<close>

lemma pricing_locals_sauna:
  "pricing_locals ''Basic'' [''3''] 1 =
     Inr \<lparr>total_gross = 90, total_after_surcharge = Finite (207 / 2),
          total_after_group = Finite (207 / 2), final_total = PyFloat (Finite (207 / 2)),
          details = \<lparr>base_total = 90, surcharge = Finite (27 / 2), group_discount = Finite 0,
                       special_discount = Finite 0, features_names = [''Sauna Access'']\<rparr>\<rparr>"
  by code_simp

text \<open>
  Claim C3. The integer cost is the final total with its fractional part discarded, not
  the nearest integer: whenever the final total is a float \<open>q\<close> (it is then positive,
  as the clamp returns the integer 0 otherwise), the cost returned is \<open>\<lfloor>q\<rfloor>\<close>, which
  is at most \<open>q\<close> and more than \<open>q - 1\<close>; when the fractional part of \<open>q\<close> is one
  half or more, that is one less than the rounded value. The scenario (Basic, feature 3,
  1 member) has the final total 103.5 and the cost 103, where rounding gives 104.
\<close>

theorem cost_truncates_total:
  assumes "MEMBERSHIP_PLANS plan_name = Some plan_base"
    and "map ADDITIONAL_FEATURES feature_keys = map Some feats"
    and "1 \<le> member_count"
    and "pricing_locals plan_name feature_keys member_count = Inr s"
    and "final_total s = PyFloat (Finite q)"
  shows "calculate_total_cost plan_name feature_keys member_count = Inr (\<lfloor>q\<rfloor>, details s)
    \<and> 0 < q \<and> 0 \<le> \<lfloor>q\<rfloor> \<and> of_int \<lfloor>q\<rfloor> \<le> q \<and> q < of_int \<lfloor>q\<rfloor> + 1
    \<and> (1 / 2 \<le> q - of_int \<lfloor>q\<rfloor> \<longrightarrow> \<lfloor>q\<rfloor> = round q - 1)"
proof -
  from pricing_locals_Inr [OF assms(1,2,4)] obtain x where
    "final_total s = py_max 0 x"
    by blast
  with assms(5) have q: "0 < q"
    by (cases x) (auto simp add: py_max_def split: if_splits)
  then have "trunc_rat q = \<lfloor>q\<rfloor>" by (simp add: trunc_rat_def)
  then have "calculate_total_cost plan_name feature_keys member_count = Inr (\<lfloor>q\<rfloor>, details s)"
    by (simp add: calculate_total_cost_def assms(4,5))
  moreover have "1 / 2 \<le> q - of_int \<lfloor>q\<rfloor> \<longrightarrow> \<lfloor>q\<rfloor> = round q - 1"
  proof
    assume "1 / 2 \<le> q - of_int \<lfloor>q\<rfloor>"
    then have "of_int (\<lfloor>q\<rfloor> + 1) \<le> q + 1 / 2" by simp
    moreover have "q + 1 / 2 < of_int (\<lfloor>q\<rfloor> + 1) + 1" by simp linarith
    ultimately have "\<lfloor>q + 1 / 2\<rfloor> = \<lfloor>q\<rfloor> + 1" by (rule floor_unique)
    then show "\<lfloor>q\<rfloor> = round q - 1" by (simp add: round_def)
  qed
  moreover have "of_int \<lfloor>q\<rfloor> \<le> q \<and> q < of_int \<lfloor>q\<rfloor> + 1"
    using floor_correct [of q] by simp
  moreover have "0 \<le> \<lfloor>q\<rfloor>" using q by simp
  ultimately show ?thesis
    using q by blast
qed

theorem cost_truncates_total_witness:
  "MEMBERSHIP_PLANS ''Basic'' = Some 50
   \<and> map ADDITIONAL_FEATURES [''3''] =
       map Some [\<lparr>name = ''Sauna Access'', cost = 40, is_premium = True\<rparr>]
   \<and> (1::int) \<le> 1
   \<and> pricing_locals ''Basic'' [''3''] 1 =
     Inr \<lparr>total_gross = 90, total_after_surcharge = Finite (207 / 2),
          total_after_group = Finite (207 / 2), final_total = PyFloat (Finite (207 / 2)),
          details = \<lparr>base_total = 90, surcharge = Finite (27 / 2), group_discount = Finite 0,
                       special_discount = Finite 0, features_names = [''Sauna Access'']\<rparr>\<rparr>
   \<and> calculate_total_cost ''Basic'' [''3''] 1 =
       Inr (103, \<lparr>base_total = 90, surcharge = Finite (27 / 2), group_discount = Finite 0,
                   special_discount = Finite 0, features_names = [''Sauna Access'']\<rparr>)
   \<and> round (207 / 2 :: rat) = 104"
proof -
  have plan: "MEMBERSHIP_PLANS ''Basic'' = Some 50"
    by (simp add: MEMBERSHIP_PLANS_def)
  have keys: "map ADDITIONAL_FEATURES [''3''] =
      map Some [\<lparr>name = ''Sauna Access'', cost = 40, is_premium = True\<rparr>]"
    by (simp add: ADDITIONAL_FEATURES_def)
  have m: "(1::int) \<le> 1" by simp
  have fl: "\<lfloor>207 / 2 :: rat\<rfloor> = 103" by (rule floor_unique) simp_all
  have rd: "round (207 / 2 :: rat) = 104" by (simp add: round_def)
  from cost_truncates_total [OF plan keys m pricing_locals_sauna, of "207 / 2"] plan keys rd
  show ?thesis by (simp add: pricing_locals_sauna fl)
qed

section \<open>The special offer\<close>





section \<open>Invalid inputs\<close>

text \<open>
  Claim C5. A plan name that is not in the plan catalog makes \<open>calculate_total_cost\<close>
  fail with the invalid-plan error, whatever the feature keys (valid or not) and the
  member count are: the features are not resolved and no breakdown is computed.
\<close>

theorem unknown_plan:
  assumes "plan_name \<notin> dom MEMBERSHIP_PLANS"
  shows "calculate_total_cost plan_name feature_keys member_count =
           Inl (ValueError ''Invalid membership plan.'')
         \<and> pricing_locals plan_name feature_keys member_count =
             Inl (ValueError ''Invalid membership plan.'')"
proof -
  from assms have none: "MEMBERSHIP_PLANS plan_name = None" by (simp add: domIff)
  then have "pricing_locals plan_name feature_keys member_count =
      Inl (ValueError ''Invalid membership plan.'')"
    by (simp add: pricing_locals_def)
  with calculate_total_cost_no_plan [OF none] show ?thesis by simp
qed

theorem unknown_plan_witness:
  "''Gold'' \<notin> dom MEMBERSHIP_PLANS
   \<and> calculate_total_cost ''Gold'' [''1'', ''9''] 0 = Inl (ValueError ''Invalid membership plan.'')
   \<and> calculate_total_cost ''Basic'' [''1'', ''9''] 0 = Inl (ValueError ''Invalid feature key: 9'')"
proof -
  have h: "''Gold'' \<notin> dom MEMBERSHIP_PLANS"
    by (simp add: MEMBERSHIP_PLANS_def domIff)
  have "calculate_total_cost ''Basic'' [''1'', ''9''] 0 = Inl (ValueError ''Invalid feature key: 9'')"
    by (simp add: calculate_total_cost_def pricing_locals_def MEMBERSHIP_PLANS_def
        get_features_details_def ADDITIONAL_FEATURES_def)
  with unknown_plan [OF h, of "[''1'', ''9'']" 0] h show ?thesis by simp
qed

text \<open>
  Claim C6. With a plan of the catalog and a list of feature keys of which \<open>key\<close> is
  the first one that is not in the feature catalog, \<open>calculate_total_cost\<close> fails
  with the invalid-feature-key error, whose message names \<open>key\<close>, whatever follows
  it in the list (valid keys or other unknown keys); nothing else is returned.
\<close>

theorem unknown_feature_key:
  assumes "plan_name \<in> dom MEMBERSHIP_PLANS"
    and "set pre \<subseteq> dom ADDITIONAL_FEATURES"
    and "key \<notin> dom ADDITIONAL_FEATURES"
  shows "calculate_total_cost plan_name (pre @ key # rest) member_count =
           Inl (ValueError (''Invalid feature key: '' @ key))"
proof -
  from assms(1) obtain base_cost where plan: "MEMBERSHIP_PLANS plan_name = Some base_cost"
    by auto
  from assms(3) have "ADDITIONAL_FEATURES key = None" by (simp add: domIff)
  with plan assms(2) show ?thesis by (rule calculate_total_cost_bad_key)
qed

theorem unknown_feature_key_witness:
  "''Basic'' \<in> dom MEMBERSHIP_PLANS
   \<and> set [''1'', ''3''] \<subseteq> dom ADDITIONAL_FEATURES
   \<and> ''9'' \<notin> dom ADDITIONAL_FEATURES
   \<and> calculate_total_cost ''Basic'' ([''1'', ''3''] @ ''9'' # [''2'', ''8'']) 2 =
       Inl (ValueError ''Invalid feature key: 9'')"
proof -
  have plan: "''Basic'' \<in> dom MEMBERSHIP_PLANS"
    by (simp add: MEMBERSHIP_PLANS_def domIff)
  have pre: "set [''1'', ''3''] \<subseteq> dom ADDITIONAL_FEATURES"
    by (simp add: ADDITIONAL_FEATURES_def domIff)
  have key: "''9'' \<notin> dom ADDITIONAL_FEATURES"
    by (simp add: ADDITIONAL_FEATURES_def domIff)
  from unknown_feature_key [OF plan pre key, of "[''2'', ''8'']" 2] plan pre key
  show ?thesis by simp
qed

text \<open>
  Claim C7, as stated: the two failures are distinguishable error kinds. They are not:
  an unknown plan and an unknown feature key both raise \<^verbatim>\<open>ValueError\<close>, so the
  class of the exception is the same.
\<close>

theorem same_error_class_counterexample:
  "calculate_total_cost ''Gold'' [] 1 = Inl (ValueError ''Invalid membership plan.'')
   \<and> calculate_total_cost ''Basic'' [''9''] 1 = Inl (ValueError ''Invalid feature key: 9'')
   \<and> exn_class (ValueError ''Invalid membership plan.'') =
       exn_class (ValueError ''Invalid feature key: 9'')"
  by (simp add: calculate_total_cost_def pricing_locals_def MEMBERSHIP_PLANS_def
      get_features_details_def ADDITIONAL_FEATURES_def)

text \<open>
  Claim C7, amended: both failures raise \<^verbatim>\<open>ValueError\<close>, and they differ in the
  message only: it is \<^verbatim>\<open>Invalid membership plan.\<close> for an unknown plan and
  \<^verbatim>\<open>Invalid feature key: \<close> followed by the key for an unknown feature key, and
  these two texts are never equal.
\<close>

theorem errors_differ_by_message:
  assumes "bad_plan \<notin> dom MEMBERSHIP_PLANS"
    and "plan_name \<in> dom MEMBERSHIP_PLANS"
    and "set pre \<subseteq> dom ADDITIONAL_FEATURES"
    and "key \<notin> dom ADDITIONAL_FEATURES"
  shows "\<exists>msg1 msg2.
      calculate_total_cost bad_plan keys m = Inl (ValueError msg1)
      \<and> calculate_total_cost plan_name (pre @ key # rest) m' = Inl (ValueError msg2)
      \<and> msg1 = ''Invalid membership plan.''
      \<and> msg2 = ''Invalid feature key: '' @ key
      \<and> msg1 \<noteq> msg2"
proof -
  from assms(1) have "MEMBERSHIP_PLANS bad_plan = None" by (simp add: domIff)
  then have one: "calculate_total_cost bad_plan keys m =
      Inl (ValueError ''Invalid membership plan.'')"
    by (rule calculate_total_cost_no_plan)
  from assms(2) obtain b where plan: "MEMBERSHIP_PLANS plan_name = Some b" by auto
  from assms(4) have "ADDITIONAL_FEATURES key = None" by (simp add: domIff)
  with plan assms(3) have two: "calculate_total_cost plan_name (pre @ key # rest) m' =
      Inl (ValueError (''Invalid feature key: '' @ key))"
    by (rule calculate_total_cost_bad_key)
  have "''Invalid membership plan.'' \<noteq> ''Invalid feature key: '' @ key" by simp
  with one two show ?thesis by simp
qed

theorem errors_differ_by_message_witness:
  "''Gold'' \<notin> dom MEMBERSHIP_PLANS
   \<and> ''Basic'' \<in> dom MEMBERSHIP_PLANS
   \<and> set [''1''] \<subseteq> dom ADDITIONAL_FEATURES
   \<and> ''9'' \<notin> dom ADDITIONAL_FEATURES
   \<and> calculate_total_cost ''Gold'' [''1''] 1 = Inl (ValueError ''Invalid membership plan.'')
   \<and> calculate_total_cost ''Basic'' ([''1''] @ ''9'' # []) 1 =
       Inl (ValueError ''Invalid feature key: 9'')"
proof -
  have h1: "''Gold'' \<notin> dom MEMBERSHIP_PLANS"
    by (simp add: MEMBERSHIP_PLANS_def domIff)
  have h2: "''Basic'' \<in> dom MEMBERSHIP_PLANS"
    by (simp add: MEMBERSHIP_PLANS_def domIff)
  have h3: "set [''1''] \<subseteq> dom ADDITIONAL_FEATURES"
    by (simp add: ADDITIONAL_FEATURES_def domIff)
  have h4: "''9'' \<notin> dom ADDITIONAL_FEATURES"
    by (simp add: ADDITIONAL_FEATURES_def domIff)
  from errors_differ_by_message [OF h1 h2 h3 h4, of "[''1'']" 1 "[]" 1] h1 h2 h3 h4
  show ?thesis by simp
qed

section \<open>The clamp at zero\<close>

text \<open>
  Claim C8. For a valid plan, valid feature keys and at least one member, a cost that
  \<open>calculate_total_cost\<close> returns is never negative. The function returns a cost
  whenever the gross total is at most \<open>2^1000\<close>; for larger ones the only other
  outcome is Python's \<^verbatim>\<open>OverflowError\<close>.
\<close>

theorem cost_never_negative:
  assumes "MEMBERSHIP_PLANS plan_name = Some plan_base"
    and "map ADDITIONAL_FEATURES feature_keys = map Some feats"
    and "1 \<le> member_count"
  shows "case calculate_total_cost plan_name feature_keys member_count of
      Inr (final_cost, breakdown) \<Rightarrow> 0 \<le> final_cost
    | Inl e \<Rightarrow>
        exn_class e = ''OverflowError''
        \<and> 2 ^ 1000 < (plan_base + sum_list (map cost feats)) * member_count"
proof (cases "calculate_total_cost plan_name feature_keys member_count")
  case (Inr r)
  obtain c d where r: "r = (c, d)" by (cases r)
  from Inr r obtain s where s: "pricing_locals plan_name feature_keys member_count = Inr s"
    and c: "py_int (final_total s) = Inr c"
    by (auto simp add: calculate_total_cost_def split: sum.splits)
  from pricing_locals_Inr [OF assms(1,2) s] obtain x where "final_total s = py_max 0 x"
    by blast
  with c have "0 \<le> c" by (simp add: py_int_py_max_nonneg)
  then show ?thesis by (simp add: Inr r)
next
  case (Inl e)
  let ?G = "(plan_base + sum_list (map cost feats)) * member_count"
  have "0 \<le> ?G"
    using gross_nonneg [OF assms(1,2)] assms(3) by simp
  have "\<not> \<bar>?G\<bar> \<le> 2 ^ 1000"
  proof
    assume "\<bar>?G\<bar> \<le> 2 ^ 1000"
    from pricing_returns [OF assms(1,2) this] Inl show False by simp
  qed
  with \<open>0 \<le> ?G\<close> have big: "2 ^ 1000 < ?G" by simp
  have "exn_class e = ''OverflowError''"
  proof (cases "pricing_locals plan_name feature_keys member_count")
    case (Inl e')
    with \<open>calculate_total_cost plan_name feature_keys member_count = Inl e\<close>
    have "e' = e" by (simp add: calculate_total_cost_def)
    have "float_of_int ?G = Inl e"
    proof (cases "float_of_int ?G")
      case (Inl e'')
      from pricing_locals_overflow [OF assms(1,2) this]
        \<open>pricing_locals plan_name feature_keys member_count = Inl e'\<close> \<open>e' = e\<close>
      show ?thesis by (simp add: Inl)
    next
      case (Inr x)
      from pricing_locals_fields [OF assms(1,2) this]
        \<open>pricing_locals plan_name feature_keys member_count = Inl e'\<close>
      show ?thesis by auto
    qed
    from float_of_int_Inl [OF this] show ?thesis by simp
  next
    case (Inr s)
    with \<open>calculate_total_cost plan_name feature_keys member_count = Inl e\<close>
    have e: "py_int (final_total s) = Inl e"
      by (simp add: calculate_total_cost_def split: sum.splits)
    from pricing_locals_Inr [OF assms(1,2) Inr] obtain x where "final_total s = py_max 0 x"
      by blast
    with e have "py_int (py_max 0 x) = Inl e" by simp
    from py_int_py_max_Inl [OF this] show ?thesis by simp
  qed
  with big show ?thesis by (simp add: Inl)
qed

theorem cost_never_negative_witness:
  "MEMBERSHIP_PLANS ''Family'' = Some 150
   \<and> map ADDITIONAL_FEATURES [] = map Some []
   \<and> (1::int) \<le> 4
   \<and> map_sum id fst (calculate_total_cost ''Family'' [] 4) = Inr 490
   \<and> (0::int) \<le> 490"
proof -
  have plan: "MEMBERSHIP_PLANS ''Family'' = Some 150"
    by (simp add: MEMBERSHIP_PLANS_def)
  have keys: "map ADDITIONAL_FEATURES [] = map Some []" by simp
  have m: "(1::int) \<le> 4" by simp
  from cost_never_negative [OF plan keys m] plan
  show ?thesis by (simp add: scenario_6)
qed

section \<open>Repeated feature keys\<close>

lemma sum_list_count_int:
  fixes f :: "'a \<Rightarrow> int"
  shows "sum_list (map f xs) = (\<Sum>x \<in> set xs. int (count_list xs x) * f x)"
proof (induction xs)
  case Nil
  show ?case by simp
next
  case (Cons y ys)
  have split: "(\<Sum>x \<in> set (y # ys). int (count_list (y # ys) x) * f x) =
      f y + (\<Sum>x \<in> set ys. int (count_list ys x) * f x)"
  proof (cases "y \<in> set ys")
    case True
    have "(\<Sum>x \<in> set ys. int (count_list (y # ys) x) * f x) =
        int (count_list (y # ys) y) * f y
          + (\<Sum>x \<in> set ys - {y}. int (count_list (y # ys) x) * f x)"
      using True by (simp add: sum.remove)
    also have "(\<Sum>x \<in> set ys - {y}. int (count_list (y # ys) x) * f x) =
        (\<Sum>x \<in> set ys - {y}. int (count_list ys x) * f x)"
      by (rule sum.cong) auto
    also have "int (count_list (y # ys) y) * f y = f y + int (count_list ys y) * f y"
      by (simp add: algebra_simps)
    finally have "(\<Sum>x \<in> set ys. int (count_list (y # ys) x) * f x) =
        f y + (int (count_list ys y) * f y
          + (\<Sum>x \<in> set ys - {y}. int (count_list ys x) * f x))"
      by simp
    also have "int (count_list ys y) * f y
          + (\<Sum>x \<in> set ys - {y}. int (count_list ys x) * f x) =
        (\<Sum>x \<in> set ys. int (count_list ys x) * f x)"
      using True by (simp add: sum.remove)
    finally show ?thesis
      using True by (simp add: insert_absorb)
  next
    case False
    then have "(\<Sum>x \<in> set ys. int (count_list (y # ys) x) * f x) =
        (\<Sum>x \<in> set ys. int (count_list ys x) * f x)"
      by (intro sum.cong) auto
    then show ?thesis
      using False by (simp add: count_list_0_iff)
  qed
  show ?case
    by (simp only: split) (simp add: Cons.IH)
qed

lemma feature_names_inj: "inj_on (\<lambda>k. name (the (ADDITIONAL_FEATURES k))) (dom ADDITIONAL_FEATURES)"
  by (rule inj_onI) (auto simp add: ADDITIONAL_FEATURES_def split: if_splits)

text \<open>
  Claim C9. Repeated feature keys are neither rejected nor merged: for valid keys, the
  feature cost is the sum over the distinct keys of the number of occurrences times the
  cost, the names are those of the keys in the order supplied, a key that occurs \<open>n\<close>
  times giving its name \<open>n\<close> times; and the breakdown that \<open>calculate_total_cost\<close>
  returns carries these names and a gross total built on this feature cost.
\<close>

theorem duplicates_counted:
  assumes "set feature_keys \<subseteq> dom ADDITIONAL_FEATURES"
  shows "\<exists>has_premium names.
      get_features_details feature_keys =
        Inr ((\<Sum>k \<in> set feature_keys.
                int (count_list feature_keys k) * cost (the (ADDITIONAL_FEATURES k))),
             names, has_premium)
      \<and> names = map (\<lambda>k. name (the (ADDITIONAL_FEATURES k))) feature_keys
      \<and> (\<forall>k \<in> set feature_keys.
            count_list names (name (the (ADDITIONAL_FEATURES k))) = count_list feature_keys k)
      \<and> (\<forall>plan_name plan_base member_count final_cost breakdown.
            MEMBERSHIP_PLANS plan_name = Some plan_base \<longrightarrow>
            calculate_total_cost plan_name feature_keys member_count =
              Inr (final_cost, breakdown) \<longrightarrow>
            features_names breakdown = names
            \<and> base_total breakdown =
                (plan_base + (\<Sum>k \<in> set feature_keys.
                   int (count_list feature_keys k) * cost (the (ADDITIONAL_FEATURES k))))
                * member_count)"
proof -
  let ?feat = "\<lambda>k. the (ADDITIONAL_FEATURES k)"
  let ?feats = "map ?feat feature_keys"
  let ?sum = "\<Sum>k \<in> set feature_keys. int (count_list feature_keys k) * cost (?feat k)"
  let ?names = "map (\<lambda>k. name (?feat k)) feature_keys"
  have keys: "map ADDITIONAL_FEATURES feature_keys = map Some ?feats"
    using assms by (rule valid_keys_features)
  have total: "sum_list (map cost ?feats) = ?sum"
    using sum_list_count_int [of "\<lambda>k. cost (?feat k)" feature_keys] by (simp add: comp_def)
  have names: "map name ?feats = ?names"
    by simp
  have details: "get_features_details feature_keys =
      Inr (?sum, ?names, \<exists>f \<in> set ?feats. is_premium f)"
    using get_features_details_valid [OF keys] by (simp only: total names)
  have counts: "\<forall>k \<in> set feature_keys.
      count_list ?names (name (?feat k)) = count_list feature_keys k"
  proof
    fix k assume k: "k \<in> set feature_keys"
    have "inj_on (\<lambda>k. name (?feat k)) (set feature_keys)"
      using feature_names_inj assms by (rule inj_on_subset)
    from count_list_inj_map [OF this k]
    show "count_list ?names (name (?feat k)) = count_list feature_keys k" .
  qed
  have breakdown: "features_names d = ?names \<and> base_total d = (b + ?sum) * m"
    if plan: "MEMBERSHIP_PLANS p = Some b"
      and result: "calculate_total_cost p feature_keys m = Inr (c, d)"
    for p b m c d
  proof -
    from result obtain s where s: "pricing_locals p feature_keys m = Inr s"
      and d: "d = details s"
      by (auto simp add: calculate_total_cost_def split: sum.splits)
    from pricing_locals_Inr [OF plan keys s]
    have "features_names (details s) = map name ?feats"
      and "base_total (details s) = (b + sum_list (map cost ?feats)) * m"
      by blast+
    then show ?thesis by (simp only: d total names)
  qed
  from details counts breakdown show ?thesis by blast
qed

lemma duplicates_example:
  "get_features_details [''1'', ''3'', ''1''] =
     Inr (100, [''Personal Training'', ''Sauna Access'', ''Personal Training''], True)"
  by (simp add: get_features_details_def ADDITIONAL_FEATURES_def)

lemma duplicates_cost_example:
  "calculate_total_cost ''Basic'' [''1'', ''3'', ''1''] 1 =
     Inr (172, \<lparr>base_total = 150, surcharge = Finite (45 / 2), group_discount = Finite 0,
                  special_discount = Finite 0,
                  features_names =
                    [''Personal Training'', ''Sauna Access'', ''Personal Training'']\<rparr>)"
  by code_simp

theorem duplicates_counted_witness:
  "set [''1'', ''3'', ''1''] \<subseteq> dom ADDITIONAL_FEATURES
   \<and> get_features_details [''1'', ''3'', ''1''] =
       Inr (100, [''Personal Training'', ''Sauna Access'', ''Personal Training''], True)
   \<and> (\<Sum>k \<in> set [''1'', ''3'', ''1''].
         int (count_list [''1'', ''3'', ''1''] k) * cost (the (ADDITIONAL_FEATURES k))) = 100
   \<and> calculate_total_cost ''Basic'' [''1'', ''3'', ''1''] 1 =
     Inr (172, \<lparr>base_total = 150, surcharge = Finite (45 / 2), group_discount = Finite 0,
                  special_discount = Finite 0,
                  features_names =
                    [''Personal Training'', ''Sauna Access'', ''Personal Training'']\<rparr>)"
proof -
  have h: "set [''1'', ''3'', ''1''] \<subseteq> dom ADDITIONAL_FEATURES"
    by (simp add: ADDITIONAL_FEATURES_def domIff)
  from duplicates_counted [OF h] obtain has_premium names where
    "get_features_details [''1'', ''3'', ''1''] =
       Inr ((\<Sum>k \<in> set [''1'', ''3'', ''1''].
               int (count_list [''1'', ''3'', ''1''] k) * cost (the (ADDITIONAL_FEATURES k))),
            names, has_premium)"
    by blast
  then have "Inr (100, [''Personal Training'', ''Sauna Access'', ''Personal Training''], True) =
      (Inr ((\<Sum>k \<in> set [''1'', ''3'', ''1''].
               int (count_list [''1'', ''3'', ''1''] k) * cost (the (ADDITIONAL_FEATURES k))),
            names, has_premium) :: exn + (int \<times> string list \<times> bool))"
    by (simp only: duplicates_example)
  then have "(\<Sum>k \<in> set [''1'', ''3'', ''1''].
      int (count_list [''1'', ''3'', ''1''] k) * cost (the (ADDITIONAL_FEATURES k))) = 100"
    by (auto simp only: sum.inject prod.inject)
  with h duplicates_example duplicates_cost_example show ?thesis by (intro conjI)
qed

section \<open>Member counts below one\<close>





end
